theory Spec2Isabelle
  imports Main
begin

section \<open>The agent IPC handlers of \<^verbatim>\<open>src/main/ipc/agent.ts\<close>\<close>

text \<open>
  The file registers three handlers: \<^verbatim>\<open>agent:invoke\<close> streams the agent's state
  snapshots to a window as typed events, \<^verbatim>\<open>agent:interrupt\<close> answers a human-in-the-loop
  pause, \<^verbatim>\<open>agent:cancel\<close> aborts a run. The snapshots are untyped (\<^verbatim>\<open>chunk as any\<close>), so
  the embedding starts with the JavaScript values the handler may meet and the three
  operations it applies to them: truthiness, property reads and calls.
\<close>

subsection \<open>JavaScript values\<close>

text \<open>
  Numbers are integers here (no NaN, no fractions); an object is the list of its own
  enumerable properties in enumeration order; a function is a native nullary function
  that returns a fixed value or throws an \<^verbatim>\<open>Error\<close> with a fixed message. Values are
  compared structurally: object identity is not part of the model.
\<close>

datatype jsval =
    JUndefined
  | JNull
  | JBool bool
  | JNum int
  | JStr string
  | JArr "jsval list"
  | JObj "(string \<times> jsval) list"
  | JFun jsval
  | JFunThrows string

text \<open>What a \<^verbatim>\<open>throw\<close> carries: an \<^verbatim>\<open>Error\<close> with its message, or any other value.\<close>

datatype fault = ErrorObj string | NonError

text \<open>
  A TypeError is an \<^verbatim>\<open>Error\<close>; its \<^verbatim>\<open>message\<close>, which is what line 210 sends, does not
  carry the name of the error. The messages below are those of V8, the engine of Electron.
\<close>

definition TypeError :: "string \<Rightarrow> fault" where
  "TypeError what = ErrorObj what"

text \<open>A name between single quotes, as V8 prints a property name.\<close>

definition quoted :: "string \<Rightarrow> string" where
  "quoted k = CHR 0x27 # k @ [CHR 0x27]"

fun truthy :: "jsval \<Rightarrow> bool" where
  "truthy JUndefined = False"
| "truthy JNull = False"
| "truthy (JBool b) = b"
| "truthy (JNum n) = (n \<noteq> 0)"
| "truthy (JStr s) = (s \<noteq> [])"
| "truthy (JArr xs) = True"
| "truthy (JObj kvs) = True"
| "truthy (JFun r) = True"
| "truthy (JFunThrows m) = True"

fun nullish :: "jsval \<Rightarrow> bool" where
  "nullish JUndefined = True"
| "nullish JNull = True"
| "nullish v = False"

text \<open>
  \<^verbatim>\<open>v?.k\<close>: reading property \<open>k\<close> of a value that is not \<^verbatim>\<open>null\<close> or \<^verbatim>\<open>undefined\<close> never
  throws. Of the inherited properties only \<^verbatim>\<open>length\<close> (strings, arrays, functions) and
  \<^verbatim>\<open>name\<close> (functions) are given, the only ones among the names the handler reads.
\<close>

fun field :: "jsval \<Rightarrow> string \<Rightarrow> jsval" where
  "field (JObj kvs) k = (case map_of kvs k of None \<Rightarrow> JUndefined | Some v \<Rightarrow> v)"
| "field (JArr xs) k = (if k = ''length'' then JNum (int (length xs)) else JUndefined)"
| "field (JStr s) k = (if k = ''length'' then JNum (int (length s)) else JUndefined)"
| "field (JFun r) k =
     (if k = ''length'' then JNum 0 else if k = ''name'' then JStr [] else JUndefined)"
| "field (JFunThrows m) k =
     (if k = ''length'' then JNum 0 else if k = ''name'' then JStr [] else JUndefined)"
| "field v k = JUndefined"

text \<open>\<^verbatim>\<open>v.k\<close>: a TypeError on \<^verbatim>\<open>null\<close> and \<^verbatim>\<open>undefined\<close>.\<close>

definition getp :: "jsval \<Rightarrow> string \<Rightarrow> fault + jsval" where
  "getp v k =
     (if nullish v then
        Inl (TypeError (''Cannot read properties of '' @
                        (if v = JNull then ''null'' else ''undefined'') @
                        '' (reading '' @ quoted k @ '')''))
      else Inr (field v k))"

fun is_function :: "jsval \<Rightarrow> bool" where
  "is_function (JFun r) = True"
| "is_function (JFunThrows m) = True"
| "is_function v = False"

text \<open>
  \<^verbatim>\<open>f()\<close>: a TypeError when \<open>f\<close> is not a function; its message names the callee as the
  source writes it (\<open>callee\<close>).
\<close>

fun call :: "string \<Rightarrow> jsval \<Rightarrow> fault + jsval" where
  "call callee (JFun r) = Inr r"
| "call callee (JFunThrows m) = Inl (ErrorObj m)"
| "call callee v = Inl (TypeError (callee @ '' is not a function''))"

text \<open>\<^verbatim>\<open>a || b\<close> for a constant \<open>b\<close>.\<close>

definition or_default :: "jsval \<Rightarrow> jsval \<Rightarrow> jsval" where
  "or_default v d = (if truthy v then v else d)"

subsection \<open>The platform\<close>

text \<open>
  What the handler takes from its platform: the results of the successive calls of
  \<^verbatim>\<open>crypto.randomUUID()\<close> and of \<^verbatim>\<open>new Date()\<close>, \<^verbatim>\<open>process.cwd()\<close>, and the string
  conversion that \<^verbatim>\<open>Array.prototype.join\<close> applies to an element that is not a string.
\<close>

record env =
  randomUUID :: "nat \<Rightarrow> string"
  date_now :: "nat \<Rightarrow> int"
  cwd :: string
  toString :: "jsval \<Rightarrow> string"

subsection \<open>Stream events\<close>

datatype role = User | Assistant | System | Tool

record Message =
  m_id :: jsval
  m_role :: role
  m_content :: string
  m_tool_calls :: jsval
  m_created_at :: int

record Todo =
  t_id :: jsval
  t_content :: jsval
  t_status :: jsval

record FileEntry =
  f_path :: jsval
  f_is_dir :: jsval
  f_size :: jsval

text \<open>\<open>DateOf v\<close> stands for \<^verbatim>\<open>new Date(v)\<close>.\<close>

datatype jsdate = DateOf jsval

record Subagent =
  a_id :: jsval
  a_name :: jsval
  a_description :: jsval
  a_status :: jsval
  a_startedAt :: "jsdate option"
  a_completedAt :: "jsdate option"

record HITLRequest =
  r_id :: jsval
  r_tool_call :: jsval
  r_allowed_decisions :: "string list"

text \<open>
  Modelled from the spec: the declaration of \<^verbatim>\<open>StreamEvent\<close> (\<^verbatim>\<open>src/main/types\<close>) is
  not among the sources; the constructors are the seven object literals the handler
  builds, by their \<^verbatim>\<open>type\<close> tag. \<open>Done\<close> carries \<^verbatim>\<open>result: null\<close>.
\<close>

datatype StreamEvent =
    MessageEv Message
  | TodosEv "Todo list"
  | WorkspaceEv "FileEntry list" jsval
  | SubagentsEv "Subagent list"
  | InterruptEv HITLRequest
  | DoneEv
  | ErrorEv string

subsection \<open>The state of one run\<close>

text \<open>
  \<open>seenMessageIds\<close> is the handler's set; \<open>uuids\<close> and \<open>dates\<close> count the calls of
  \<^verbatim>\<open>crypto.randomUUID()\<close> and \<^verbatim>\<open>new Date()\<close> so far; \<open>sent\<close> is what
  \<^verbatim>\<open>window.webContents.send(channel, _)\<close> has been given, oldest first.
\<close>

record session =
  seenMessageIds :: "jsval set"
  uuids :: nat
  dates :: nat
  sent :: "StreamEvent list"

definition new_session :: session where
  "new_session = \<lparr>seenMessageIds = {}, uuids = 0, dates = 0, sent = []\<rparr>"

definition send :: "StreamEvent \<Rightarrow> session \<Rightarrow> session" where
  "send e s = s\<lparr>sent := sent s @ [e]\<rparr>"

text \<open>\<^verbatim>\<open>v || crypto.randomUUID()\<close>.\<close>

definition or_uuid :: "env \<Rightarrow> jsval \<Rightarrow> session \<Rightarrow> jsval \<times> session" where
  "or_uuid e v s =
     (if truthy v then (v, s)
      else (JStr (randomUUID e (uuids s)), s\<lparr>uuids := Suc (uuids s)\<rparr>))"

text \<open>
  A statement either completes or throws; the state it leaves (the events already
  sent, the identifiers drawn) survives the throw.
\<close>

type_synonym outcome = "fault option \<times> session"

fun run_steps :: "(session \<Rightarrow> outcome) list \<Rightarrow> session \<Rightarrow> outcome" where
  "run_steps [] s = (None, s)"
| "run_steps (k # ks) s =
     (case k s of (Some f, s1) \<Rightarrow> (Some f, s1) | (None, s1) \<Rightarrow> run_steps ks s1)"

text \<open>\<^verbatim>\<open>xs.map(f)\<close> for an \<open>f\<close> that may draw identifiers and may throw.\<close>

fun map_items ::
  "(jsval \<Rightarrow> session \<Rightarrow> (fault + 'a) \<times> session) \<Rightarrow> jsval list \<Rightarrow> session
     \<Rightarrow> (fault + 'a list) \<times> session" where
  "map_items f [] s = (Inr [], s)"
| "map_items f (x # xs) s =
     (case f x s of
        (Inl e, s1) \<Rightarrow> (Inl e, s1)
      | (Inr y, s1) \<Rightarrow>
          (case map_items f xs s1 of
             (Inl e, s2) \<Rightarrow> (Inl e, s2)
           | (Inr ys, s2) \<Rightarrow> (Inr (y # ys), s2)))"

subsection \<open>Messages (lines 58--105)\<close>

text \<open>Lines 67--74: the role, \<^verbatim>\<open>assistant\<close> unless \<^verbatim>\<open>_getType()\<close> says otherwise.\<close>

definition message_role :: "jsval \<Rightarrow> fault + role" where
  "message_role msg =
     (if is_function (field msg ''_getType'') then
        (case call ''msg._getType'' (field msg ''_getType'') of
           Inl f \<Rightarrow> Inl f
         | Inr msgType \<Rightarrow>
             Inr (if msgType = JStr ''human'' then User
                  else if msgType = JStr ''ai'' then Assistant
                  else if msgType = JStr ''system'' then System
                  else if msgType = JStr ''tool'' then Tool
                  else Assistant))
      else Inr Assistant)"

text \<open>Line 82: \<^verbatim>\<open>.filter(block => block.type === 'text')\<close>.\<close>

fun filter_text :: "jsval list \<Rightarrow> fault + jsval list" where
  "filter_text [] = Inr []"
| "filter_text (b # bs) =
     (case getp b ''type'' of
        Inl f \<Rightarrow> Inl f
      | Inr t \<Rightarrow>
          (case filter_text bs of
             Inl f \<Rightarrow> Inl f
           | Inr r \<Rightarrow> Inr (if t = JStr ''text'' then b # r else r)))"

text \<open>
  Lines 83--84: \<^verbatim>\<open>block.text || ''\<close>, then the conversion of \<^verbatim>\<open>join\<close>. The blocks
  come out of the filter, so none is \<^verbatim>\<open>null\<close> or \<^verbatim>\<open>undefined\<close>.
\<close>

definition block_text :: "env \<Rightarrow> jsval \<Rightarrow> string" where
  "block_text e b =
     (case or_default (field b ''text'') (JStr []) of
        JStr t \<Rightarrow> t
      | v \<Rightarrow> toString e v)"

text \<open>Lines 77--85.\<close>

definition message_content :: "env \<Rightarrow> jsval \<Rightarrow> fault + string" where
  "message_content e msg =
     (case field msg ''content'' of
        JStr c \<Rightarrow> Inr c
      | JArr blocks \<Rightarrow>
          (case filter_text blocks of
             Inl f \<Rightarrow> Inl f
           | Inr texts \<Rightarrow> Inr (concat (map (block_text e) texts)))
      | _ \<Rightarrow> Inr [])"

text \<open>
  Line 102: \<^verbatim>\<open>msgId.substring(0, 20)\<close>, for the log. \<open>msgId\<close> is truthy there; a string
  has the method, any other value has it only as an own property.
\<close>

definition substring_call :: "jsval \<Rightarrow> fault option" where
  "substring_call v =
     (case v of
        JStr t \<Rightarrow> None
      | _ \<Rightarrow>
          (case call ''msgId.substring'' (field v ''substring'') of
             Inl f \<Rightarrow> Some f
           | Inr r \<Rightarrow> None))"

text \<open>Lines 61--103: the body of the loop over \<^verbatim>\<open>state.messages\<close>.\<close>

definition process_message :: "env \<Rightarrow> jsval \<Rightarrow> session \<Rightarrow> outcome" where
  "process_message e msg s =
     (case getp msg ''id'' of
        Inl f \<Rightarrow> (Some f, s)
      | Inr i \<Rightarrow>
          (case or_uuid e i s of
             (msgId, s1) \<Rightarrow>
               if msgId \<in> seenMessageIds s1 then (None, s1)
               else
                 (case message_role msg of
                    Inl f \<Rightarrow> (Some f, s1)
                  | Inr role \<Rightarrow>
                      (case message_content e msg of
                         Inl f \<Rightarrow> (Some f, s1)
                       | Inr content \<Rightarrow>
                           if role = Assistant \<and> content \<noteq> [] then
                             (substring_call msgId,
                              send (MessageEv
                                      \<lparr>m_id = msgId, m_role = role, m_content = content,
                                       m_tool_calls = field msg ''tool_calls'',
                                       m_created_at = date_now e (dates s1)\<rparr>)
                                (s1\<lparr>seenMessageIds := insert msgId (seenMessageIds s1),
                                    dates := Suc (dates s1)\<rparr>))
                           else (None, s1)))))"

text \<open>Lines 59--105.\<close>

definition extract_messages :: "env \<Rightarrow> jsval \<Rightarrow> session \<Rightarrow> outcome" where
  "extract_messages e state s =
     (case getp state ''messages'' of
        Inl f \<Rightarrow> (Some f, s)
      | Inr (JArr msgs) \<Rightarrow> run_steps (map (process_message e) msgs) s
      | Inr _ \<Rightarrow> (None, s))"

subsection \<open>Todos (lines 107--118)\<close>

text \<open>Lines 111--115: one raw item. The cast of \<^verbatim>\<open>status\<close> is a type annotation only.\<close>

definition todo_of :: "env \<Rightarrow> jsval \<Rightarrow> session \<Rightarrow> (fault + Todo) \<times> session" where
  "todo_of e t s =
     (case getp t ''id'' of
        Inl f \<Rightarrow> (Inl f, s)
      | Inr i \<Rightarrow>
          (case or_uuid e i s of
             (tid, s1) \<Rightarrow>
               (Inr \<lparr>t_id = tid,
                     t_content = or_default (field t ''content'') (JStr []),
                     t_status = or_default (field t ''status'') (JStr ''pending'')\<rparr>, s1)))"

definition extract_todos :: "env \<Rightarrow> jsval \<Rightarrow> session \<Rightarrow> outcome" where
  "extract_todos e state s =
     (case getp state ''todos'' of
        Inl f \<Rightarrow> (Some f, s)
      | Inr (JArr ts) \<Rightarrow>
          (case map_items (todo_of e) ts s of
             (Inl f, s1) \<Rightarrow> (Some f, s1)
           | (Inr todos, s1) \<Rightarrow> (None, send (TodosEv todos) s1))
      | Inr _ \<Rightarrow> (None, s))"

subsection \<open>Workspace (lines 120--157)\<close>

text \<open>Lines 127--131: one entry of the object keyed by path.\<close>

definition file_of_entry :: "string \<times> jsval \<Rightarrow> FileEntry" where
  "file_of_entry kv =
     (case kv of
        (filePath, data) \<Rightarrow>
          \<lparr>f_path = JStr filePath, f_is_dir = JBool False,
           f_size = (case (if nullish data then JUndefined else field data ''content'') of
                       JStr c \<Rightarrow> JNum (int (length c))
                     | _ \<Rightarrow> JUndefined)\<rparr>)"

text \<open>Lines 148--152: one entry of the legacy array.\<close>

fun legacy_files :: "jsval list \<Rightarrow> fault + FileEntry list" where
  "legacy_files [] = Inr []"
| "legacy_files (f # fs) =
     (case getp f ''path'' of
        Inl x \<Rightarrow> Inl x
      | Inr p \<Rightarrow>
          (case legacy_files fs of
             Inl x \<Rightarrow> Inl x
           | Inr r \<Rightarrow>
               Inr (\<lparr>f_path = p, f_is_dir = field f ''is_dir'', f_size = field f ''size''\<rparr> # r)))"

definition extract_workspace :: "env \<Rightarrow> jsval \<Rightarrow> session \<Rightarrow> outcome" where
  "extract_workspace e state s =
     (case getp state ''files'' of
        Inl f \<Rightarrow> (Some f, s)
      | Inr filesObj \<Rightarrow>
          (let workspacePath = or_default (field state ''workspacePath'') (JStr (cwd e)) in
           case filesObj of
             JObj kvs \<Rightarrow>
               (let files = map file_of_entry kvs in
                if length files > 0 then (None, send (WorkspaceEv files workspacePath) s)
                else (None, s))
           | JArr fs \<Rightarrow>
               if length fs > 0 then
                 (case legacy_files fs of
                    Inl f \<Rightarrow> (Some f, s)
                  | Inr files \<Rightarrow> (None, send (WorkspaceEv files workspacePath) s))
               else (None, s)
           | _ \<Rightarrow> (None, s)))"

subsection \<open>Subagents (lines 159--184)\<close>

definition date_of :: "jsval \<Rightarrow> jsdate option" where
  "date_of v = (if truthy v then Some (DateOf v) else None)"

definition subagent_of :: "env \<Rightarrow> jsval \<Rightarrow> session \<Rightarrow> (fault + Subagent) \<times> session" where
  "subagent_of e a s =
     (case getp a ''id'' of
        Inl f \<Rightarrow> (Inl f, s)
      | Inr i \<Rightarrow>
          (case or_uuid e i s of
             (aid, s1) \<Rightarrow>
               (Inr \<lparr>a_id = aid,
                     a_name = or_default (field a ''name'')
                                (or_default (field a ''type'') (JStr ''Subagent'')),
                     a_description = or_default (field a ''description'') (JStr []),
                     a_status = or_default (field a ''status'') (JStr ''pending''),
                     a_startedAt = date_of (field a ''startedAt''),
                     a_completedAt = date_of (field a ''completedAt'')\<rparr>, s1)))"

definition extract_subagents :: "env \<Rightarrow> jsval \<Rightarrow> session \<Rightarrow> outcome" where
  "extract_subagents e state s =
     (case getp state ''subagents'' of
        Inl f \<Rightarrow> (Some f, s)
      | Inr (JArr subagentsRaw) \<Rightarrow>
          if length subagentsRaw > 0 then
            (case map_items (subagent_of e) subagentsRaw s of
               (Inl f, s1) \<Rightarrow> (Some f, s1)
             | (Inr subagents, s1) \<Rightarrow> (None, send (SubagentsEv subagents) s1))
          else (None, s)
      | Inr _ \<Rightarrow> (None, s))"

subsection \<open>Interrupts (lines 186--198)\<close>

definition extract_interrupt :: "env \<Rightarrow> jsval \<Rightarrow> session \<Rightarrow> outcome" where
  "extract_interrupt e state s =
     (case getp state ''__interrupt__'' of
        Inl f \<Rightarrow> (Some f, s)
      | Inr interrupt \<Rightarrow>
          if truthy interrupt then
            (case or_uuid e (field interrupt ''id'') s of
               (rid, s1) \<Rightarrow>
                 (None, send (InterruptEv
                                \<lparr>r_id = rid, r_tool_call = field interrupt ''tool_call'',
                                 r_allowed_decisions = [''approve'', ''reject'', ''edit'']\<rparr>) s1))
          else (None, s))"

subsection \<open>The stream loop and the \<^verbatim>\<open>agent:invoke\<close> handler\<close>

text \<open>Lines 55--198: the body of the loop for one chunk, the five extractions in order.\<close>

definition process_chunk :: "env \<Rightarrow> jsval \<Rightarrow> session \<Rightarrow> outcome" where
  "process_chunk e state =
     run_steps [extract_messages e state, extract_todos e state, extract_workspace e state,
                extract_subagents e state, extract_interrupt e state]"

text \<open>
  \<^verbatim>\<open>agent:cancel\<close> aborts the controller of the run; an abort is never undone. The
  handler yields only where it awaits, so the check of line 52 on the chunk of index
  \<open>i\<close> (from 0) sees the abort exactly when it came before that chunk was delivered:
  \<open>Some k\<close> is an abort that arrives after \<open>k\<close> chunks have been delivered, \<open>None\<close> no
  abort.
\<close>

definition aborted :: "nat option \<Rightarrow> nat \<Rightarrow> bool" where
  "aborted cancel i = (case cancel of None \<Rightarrow> False | Some k \<Rightarrow> k \<le> i)"

text \<open>
  Lines 51--199. The stream is the finite list of the chunks it delivers and how it
  ends after them: exhausted (\<open>None\<close>) or with a throw. The result \<open>None\<close> is the loop
  left by exhaustion or \<^verbatim>\<open>break\<close>.
\<close>

fun stream_loop ::
  "env \<Rightarrow> nat option \<Rightarrow> nat \<Rightarrow> jsval list \<Rightarrow> fault option \<Rightarrow> session \<Rightarrow> outcome" where
  "stream_loop e cancel i [] ending s = (ending, s)"
| "stream_loop e cancel i (chunk # chunks) ending s =
     (if aborted cancel i then (None, s)
      else
        (case process_chunk e chunk s of
           (Some f, s1) \<Rightarrow> (Some f, s1)
         | (None, s1) \<Rightarrow> stream_loop e cancel (Suc i) chunks ending s1))"

text \<open>
  What the runtime (\<^verbatim>\<open>createAgentRuntime\<close>, \<^verbatim>\<open>agent.stream\<close>, both outside this file)
  does in one run: either call throws, or the stream is opened.
\<close>

datatype agent_run =
    CreateRuntimeThrows fault
  | StreamThrows fault
  | Streams "jsval list" "fault option"

text \<open>Line 210.\<close>

fun error_message :: "fault \<Rightarrow> string" where
  "error_message (ErrorObj m) = m"
| "error_message NonError = ''Unknown error''"

text \<open>Lines 27--204, the \<^verbatim>\<open>try\<close> block up to the Done event.\<close>

definition invoke_try :: "env \<Rightarrow> agent_run \<Rightarrow> nat option \<Rightarrow> outcome" where
  "invoke_try e run cancel =
     (case run of
        CreateRuntimeThrows f \<Rightarrow> (Some f, new_session)
      | StreamThrows f \<Rightarrow> (Some f, new_session)
      | Streams chunks ending \<Rightarrow>
          (case stream_loop e cancel 0 chunks ending new_session of
             (Some f, s) \<Rightarrow> (Some f, s)
           | (None, s) \<Rightarrow> (None, send DoneEv s)))"

text \<open>
  Lines 13--216: the events the handler sends on the channel of the thread, in order.
  \<open>window\<close> is whether \<^verbatim>\<open>BrowserWindow.fromWebContents\<close> found a window (line 19).
\<close>

definition invoke :: "env \<Rightarrow> bool \<Rightarrow> agent_run \<Rightarrow> nat option \<Rightarrow> StreamEvent list" where
  "invoke e window run cancel =
     (if \<not> window then []
      else
        (case invoke_try e run cancel of
           (Some f, s) \<Rightarrow> sent (send (ErrorEv (error_message f)) s)
         | (None, s) \<Rightarrow> sent s))"

subsection \<open>The \<^verbatim>\<open>agent:interrupt\<close> handler (lines 218--236)\<close>

text \<open>
  Modelled from the spec: \<^verbatim>\<open>HITLDecision\<close> (\<^verbatim>\<open>src/main/types\<close>) is not among the sources;
  it is \<^verbatim>\<open>{ type, payload? }\<close>, of which the handler reads \<^verbatim>\<open>type\<close> only.
\<close>

record HITLDecision =
  d_type :: string
  d_payload :: jsval

text \<open>The one call the handler makes on the runtime: \<^verbatim>\<open>agent.invoke(input, config)\<close>.\<close>

datatype runtime_call = Invoke jsval string

text \<open>
  What the runtime does when the handler uses it: \<^verbatim>\<open>createAgentRuntime()\<close> may throw,
  and so may \<^verbatim>\<open>agent.invoke(null, config)\<close> on a given thread.
\<close>

record runtime =
  create_throws :: "fault option"
  invoke_throws :: "string \<Rightarrow> fault option"

text \<open>
  The handler's promise: rejected with a fault, or fulfilled; with it, the calls made on
  the runtime.
\<close>

definition agent_interrupt ::
  "runtime \<Rightarrow> string \<Rightarrow> HITLDecision \<Rightarrow> (fault + unit) \<times> runtime_call list" where
  "agent_interrupt rt threadId decision =
     (case create_throws rt of
        Some f \<Rightarrow> (Inl f, [])
      | None \<Rightarrow>
          if d_type decision = ''approve'' then
            (case invoke_throws rt threadId of
               Some f \<Rightarrow> (Inl f, [Invoke JNull threadId])
             | None \<Rightarrow> (Inr (), [Invoke JNull threadId]))
          else if d_type decision = ''reject'' then (Inr (), [])
          else if d_type decision = ''edit'' then (Inr (), [])
          else (Inr (), []))"

subsection \<open>Reading the channel\<close>

text \<open>The terminal events, and the payloads of the events of each kind, in order.\<close>

fun is_terminal :: "StreamEvent \<Rightarrow> bool" where
  "is_terminal DoneEv = True"
| "is_terminal (ErrorEv m) = True"
| "is_terminal ev = False"


fun messages_in :: "StreamEvent list \<Rightarrow> Message list" where
  "messages_in [] = []"
| "messages_in (MessageEv m # evs) = m # messages_in evs"
| "messages_in (ev # evs) = messages_in evs"

fun todos_in :: "StreamEvent list \<Rightarrow> Todo list list" where
  "todos_in [] = []"
| "todos_in (TodosEv ts # evs) = ts # todos_in evs"
| "todos_in (ev # evs) = todos_in evs"

fun workspaces_in :: "StreamEvent list \<Rightarrow> (FileEntry list \<times> jsval) list" where
  "workspaces_in [] = []"
| "workspaces_in (WorkspaceEv fs p # evs) = (fs, p) # workspaces_in evs"
| "workspaces_in (ev # evs) = workspaces_in evs"

definition message_ids :: "StreamEvent list \<Rightarrow> jsval list" where
  "message_ids evs = map m_id (messages_in evs)"

text \<open>The events sent while one chunk is processed from state \<open>s\<close>.\<close>

definition chunk_events :: "env \<Rightarrow> jsval \<Rightarrow> session \<Rightarrow> StreamEvent list" where
  "chunk_events e state s = drop (length (sent s)) (sent (snd (process_chunk e state s)))"

text \<open>The items of \<^verbatim>\<open>state.messages\<close> that the loop of line 60 visits.\<close>

definition message_items :: "jsval \<Rightarrow> jsval list" where
  "message_items state = (case field state ''messages'' of JArr msgs \<Rightarrow> msgs | _ \<Rightarrow> [])"

text \<open>A platform for examples: the identifier of call \<open>n\<close> (from 0) is \<^verbatim>\<open>uuid-\<close> and \<open>n\<close> times the letter u.\<close>

definition example_env :: env where
  "example_env =
     \<lparr>randomUUID = (\<lambda>n. ''uuid-'' @ replicate n (CHR ''u'')), date_now = (\<lambda>n. int n),
      cwd = ''/work'', toString = (\<lambda>v. ''[object Object]'')\<rparr>"

text \<open>\<^verbatim>\<open>t.status || 'pending'\<close>, the status line 114 gives a raw item.\<close>

definition raw_status :: "jsval \<Rightarrow> jsval" where
  "raw_status t = or_default (field t ''status'') (JStr ''pending'')"

text \<open>
  What the body of the loop can send for a chunk \<open>state\<close>, event by event: used to
  carry the facts about the five extractions through \<open>run_steps\<close> in one induction.
\<close>

fun chunk_event_ok :: "env \<Rightarrow> jsval \<Rightarrow> StreamEvent \<Rightarrow> bool" where
  "chunk_event_ok e state (MessageEv m) =
     (m_role m = Assistant \<and> m_content m \<noteq> [] \<and>
      (\<exists>item \<in> set (message_items state).
         message_role item = Inr Assistant \<and> message_content e item = Inr (m_content m)))"
| "chunk_event_ok e state (TodosEv todos) =
     (\<exists>ts. field state ''todos'' = JArr ts \<and> map t_status todos = map raw_status ts)"
| "chunk_event_ok e state (WorkspaceEv fs p) =
     (fs \<noteq> [] \<and> p = or_default (field state ''workspacePath'') (JStr (cwd e)) \<and>
      (case field state ''files'' of
         JObj kvs \<Rightarrow> fs = map file_of_entry kvs
       | JArr raw \<Rightarrow> legacy_files raw = Inr fs
       | _ \<Rightarrow> False))"
| "chunk_event_ok e state (SubagentsEv as) = (as \<noteq> [])"
| "chunk_event_ok e state (InterruptEv r) = truthy (field state ''__interrupt__'')"
| "chunk_event_ok e state DoneEv = False"
| "chunk_event_ok e state (ErrorEv m) = False"

text \<open>
  How a state \<open>s'\<close> reached from \<open>s\<close> inside the loop relates to it: events are only
  appended, none of them terminal; the Message events appended carry distinct
  identifiers that were not in the set, and the set gains exactly those.
\<close>

definition grows :: "session \<Rightarrow> session \<Rightarrow> bool" where
  "grows s s' =
     (\<exists>evs. sent s' = sent s @ evs \<and> list_all (\<lambda>ev. \<not> is_terminal ev) evs \<and>
            distinct (message_ids evs) \<and> set (message_ids evs) \<inter> seenMessageIds s = {} \<and>
            seenMessageIds s' = seenMessageIds s \<union> set (message_ids evs) \<and>
            uuids s \<le> uuids s')"

text \<open>A runtime for examples, on which neither call throws.\<close>

definition quiet_runtime :: runtime where
  "quiet_runtime = \<lparr>create_throws = None, invoke_throws = (\<lambda>threadId. None)\<rparr>"

text \<open>A runtime for examples whose \<^verbatim>\<open>invoke\<close> throws on every thread.\<close>

definition failing_runtime :: runtime where
  "failing_runtime =
     \<lparr>create_throws = None, invoke_throws = (\<lambda>threadId. Some (ErrorObj ''no checkpoint''))\<rparr>"


text \<open>The items of \<^verbatim>\<open>state.todos\<close> that line 111 maps.\<close>

definition todo_items :: "jsval \<Rightarrow> jsval list" where
  "todo_items state = (case field state ''todos'' of JArr ts \<Rightarrow> ts | _ \<Rightarrow> [])"

text \<open>The four statuses that the cast of line 114 names.\<close>

definition todo_statuses :: "jsval list" where
  "todo_statuses = [JStr ''pending'', JStr ''in_progress'', JStr ''completed'', JStr ''cancelled'']"






section \<open>Properties\<close>

subsection \<open>Sequencing\<close>

lemma messages_in_append: "messages_in (xs @ ys) = messages_in xs @ messages_in ys"
  by (induction xs rule: messages_in.induct) auto

lemma message_ids_append: "message_ids (xs @ ys) = message_ids xs @ message_ids ys"
  by (simp add: message_ids_def messages_in_append)

lemma todos_in_append: "todos_in (xs @ ys) = todos_in xs @ todos_in ys"
  by (induction xs rule: todos_in.induct) auto

lemma workspaces_in_append: "workspaces_in (xs @ ys) = workspaces_in xs @ workspaces_in ys"
  by (induction xs rule: workspaces_in.induct) auto

lemma grows_refl: "grows s s"
  by (simp add: grows_def message_ids_def)

lemma grows_trans:
  assumes "grows a b" and "grows b c"
  shows "grows a c"
proof -
  from assms(1) obtain xs where xs: "sent b = sent a @ xs" "list_all (\<lambda>ev. \<not> is_terminal ev) xs"
    "distinct (message_ids xs)" "set (message_ids xs) \<inter> seenMessageIds a = {}"
    "seenMessageIds b = seenMessageIds a \<union> set (message_ids xs)" "uuids a \<le> uuids b"
    unfolding grows_def by blast
  from assms(2) obtain ys where ys: "sent c = sent b @ ys" "list_all (\<lambda>ev. \<not> is_terminal ev) ys"
    "distinct (message_ids ys)" "set (message_ids ys) \<inter> seenMessageIds b = {}"
    "seenMessageIds c = seenMessageIds b \<union> set (message_ids ys)" "uuids b \<le> uuids c"
    unfolding grows_def by blast
  have "sent c = sent a @ (xs @ ys)" using xs(1) ys(1) by simp
  moreover have "list_all (\<lambda>ev. \<not> is_terminal ev) (xs @ ys)" using xs(2) ys(2) by simp
  moreover have "distinct (message_ids (xs @ ys))"
    using xs(3,5) ys(3,4) by (auto simp: message_ids_append)
  moreover have "set (message_ids (xs @ ys)) \<inter> seenMessageIds a = {}"
    using xs(4,5) ys(4) by (auto simp: message_ids_append)
  moreover have "seenMessageIds c = seenMessageIds a \<union> set (message_ids (xs @ ys))"
    using xs(5) ys(5) by (auto simp: message_ids_append)
  moreover have "uuids a \<le> uuids c" using xs(6) ys(6) by simp
  ultimately show ?thesis unfolding grows_def by blast
qed

lemma grows_send:
  "\<not> is_terminal ev \<Longrightarrow> messages_in [ev] = [] \<Longrightarrow> grows s (send ev s)"
  by (simp add: grows_def send_def message_ids_def)

lemma run_steps_rel:
  assumes refl: "\<And>s. R s s"
    and trans: "\<And>a b c. R a b \<Longrightarrow> R b c \<Longrightarrow> R a c"
    and step: "\<And>k s r s'. k \<in> set ks \<Longrightarrow> k s = (r, s') \<Longrightarrow> R s s'"
  shows "run_steps ks s = (r, s') \<Longrightarrow> R s s'"
  using step
proof (induction ks arbitrary: s)
  case Nil
  then show ?case using refl by simp
next
  case (Cons k ks)
  obtain r1 s1 where k: "k s = (r1, s1)" by (cases "k s")
  have R1: "R s s1" using Cons.prems(2)[of k s r1 s1] k by simp
  show ?case
  proof (cases r1)
    case None
    then have "run_steps ks s1 = (r, s')" using Cons.prems(1) k by simp
    then have "R s1 s'"
    proof (rule Cons.IH)
      fix ka sa ra sa'
      assume "ka \<in> set ks" "ka sa = (ra, sa')"
      then show "R sa sa'" using Cons.prems(2)[of ka sa ra sa'] by simp
    qed
    then show ?thesis using R1 trans by blast
  next
    case (Some f)
    then show ?thesis using Cons.prems(1) k R1 by simp
  qed
qed

lemma or_uuid_quiet:
  "or_uuid e v s = (i, s1) \<Longrightarrow>
     sent s1 = sent s \<and> seenMessageIds s1 = seenMessageIds s \<and> dates s1 = dates s \<and> uuids s \<le> uuids s1"
  by (auto simp: or_uuid_def split: if_splits)

lemma map_items_quiet:
  assumes f: "\<And>x s r s1. f x s = (r, s1) \<Longrightarrow>
                sent s1 = sent s \<and> seenMessageIds s1 = seenMessageIds s \<and> uuids s \<le> uuids s1"
  shows "map_items f xs s = (r, s') \<Longrightarrow>
           sent s' = sent s \<and> seenMessageIds s' = seenMessageIds s \<and> uuids s \<le> uuids s'"
proof (induction xs arbitrary: s r s')
  case Nil
  then show ?case by simp
next
  case (Cons x xs)
  obtain r1 s1 where x: "f x s = (r1, s1)" by (cases "f x s")
  note q1 = f[OF x]
  show ?case
  proof (cases r1)
    case (Inl a)
    then show ?thesis using Cons.prems x q1 by simp
  next
    case (Inr y)
    obtain r2 s2 where xs: "map_items f xs s1 = (r2, s2)" by (cases "map_items f xs s1")
    note q2 = Cons.IH[OF xs]
    have "s' = s2" using Cons.prems x Inr xs by (cases r2) auto
    then show ?thesis using q1 q2 by simp
  qed
qed

lemma todo_of_quiet:
  "todo_of e t s = (r, s1) \<Longrightarrow>
     sent s1 = sent s \<and> seenMessageIds s1 = seenMessageIds s \<and> uuids s \<le> uuids s1"
  by (auto simp: todo_of_def split: sum.splits prod.splits dest: or_uuid_quiet)

lemma subagent_of_quiet:
  "subagent_of e a s = (r, s1) \<Longrightarrow>
     sent s1 = sent s \<and> seenMessageIds s1 = seenMessageIds s \<and> uuids s \<le> uuids s1"
  by (auto simp: subagent_of_def split: sum.splits prod.splits dest: or_uuid_quiet)

subsection \<open>What each extraction sends\<close>

lemma process_message_cases:
  assumes "process_message e msg s = (r, s')"
  shows "(sent s' = sent s \<and> seenMessageIds s' = seenMessageIds s \<and> uuids s \<le> uuids s') \<or>
         (\<exists>m. sent s' = sent s @ [MessageEv m] \<and> m_id m \<notin> seenMessageIds s \<and>
              seenMessageIds s' = insert (m_id m) (seenMessageIds s) \<and> uuids s \<le> uuids s' \<and>
              m_role m = Assistant \<and> m_content m \<noteq> [] \<and>
              message_role msg = Inr Assistant \<and> message_content e msg = Inr (m_content m))"
  using assms
  by (auto simp: process_message_def send_def split: sum.splits prod.splits if_splits
           dest!: or_uuid_quiet)

lemma process_message_grows:
  assumes "process_message e msg s = (r, s')"
  shows "grows s s'"
  using process_message_cases[OF assms]
  by (auto simp: grows_def message_ids_def)

lemma process_message_ok:
  assumes "process_message e msg s = (r, s')" and "msg \<in> set (message_items state)"
  shows "\<exists>evs. sent s' = sent s @ evs \<and> list_all (chunk_event_ok e state) evs"
  using process_message_cases[OF assms(1)] assms(2)
  by auto

lemma extract_messages_grows:
  assumes "extract_messages e state s = (r, s')"
  shows "grows s s'"
proof (cases "getp state ''messages''")
  case (Inl f)
  then show ?thesis using assms by (simp add: extract_messages_def grows_refl)
next
  case (Inr v)
  show ?thesis
  proof (cases "\<exists>msgs. v = JArr msgs")
    case True
    then obtain msgs where v: "v = JArr msgs" by blast
    have "run_steps (map (process_message e) msgs) s = (r, s')"
      using assms Inr v by (simp add: extract_messages_def)
    then show ?thesis
      by (rule run_steps_rel[where R = grows, rotated -1])
         (auto intro: grows_refl grows_trans process_message_grows)
  next
    case False
    then have "s' = s" using assms Inr by (cases v) (auto simp: extract_messages_def)
    then show ?thesis by (simp add: grows_refl)
  qed
qed

text \<open>The events appended between two states all satisfy \<open>chunk_event_ok\<close>.\<close>

lemma ok_trans:
  assumes "\<exists>evs. sent b = sent a @ evs \<and> list_all (chunk_event_ok e state) evs"
    and "\<exists>evs. sent c = sent b @ evs \<and> list_all (chunk_event_ok e state) evs"
  shows "\<exists>evs. sent c = sent a @ evs \<and> list_all (chunk_event_ok e state) evs"
proof -
  from assms(1) obtain xs where xs: "sent b = sent a @ xs" "list_all (chunk_event_ok e state) xs"
    by blast
  from assms(2) obtain ys where ys: "sent c = sent b @ ys" "list_all (chunk_event_ok e state) ys"
    by blast
  have "sent c = sent a @ (xs @ ys)" "list_all (chunk_event_ok e state) (xs @ ys)"
    using xs ys by simp_all
  then show ?thesis by blast
qed

lemma extract_messages_ok:
  assumes "extract_messages e state s = (r, s')"
  shows "\<exists>evs. sent s' = sent s @ evs \<and> list_all (chunk_event_ok e state) evs"
proof (cases "getp state ''messages''")
  case (Inl f)
  then show ?thesis using assms by (simp add: extract_messages_def)
next
  case (Inr v)
  show ?thesis
  proof (cases "\<exists>msgs. v = JArr msgs")
    case True
    then obtain msgs where v: "v = JArr msgs" by blast
    have items: "message_items state = msgs"
      using Inr v by (auto simp: message_items_def getp_def split: if_splits)
    have run: "run_steps (map (process_message e) msgs) s = (r, s')"
      using assms Inr v by (simp add: extract_messages_def)
    show ?thesis
    proof (rule run_steps_rel[where R = "\<lambda>a b. \<exists>evs. sent b = sent a @ evs \<and>
               list_all (chunk_event_ok e state) evs", OF _ _ _ run])
      show "\<And>s. \<exists>evs. sent s = sent s @ evs \<and> list_all (chunk_event_ok e state) evs"
        by simp
      show "\<And>a b c. \<exists>evs. sent b = sent a @ evs \<and> list_all (chunk_event_ok e state) evs \<Longrightarrow>
               \<exists>evs. sent c = sent b @ evs \<and> list_all (chunk_event_ok e state) evs \<Longrightarrow>
               \<exists>evs. sent c = sent a @ evs \<and> list_all (chunk_event_ok e state) evs"
        by (rule ok_trans)
      fix k s0 r0 s1
      assume "k \<in> set (map (process_message e) msgs)" and k: "k s0 = (r0, s1)"
      then obtain msg where "msg \<in> set msgs" "k = process_message e msg" by auto
      then show "\<exists>evs. sent s1 = sent s0 @ evs \<and> list_all (chunk_event_ok e state) evs"
        using process_message_ok[of e msg s0 r0 s1 state] k items by simp
    qed
  next
    case False
    then have "s' = s" using assms Inr by (cases v) (auto simp: extract_messages_def)
    then show ?thesis by simp
  qed
qed

lemma map_items_todo_status:
  "map_items (todo_of e) ts s = (Inr todos, s') \<Longrightarrow> map t_status todos = map raw_status ts"
proof (induction ts arbitrary: s todos s')
  case Nil
  then show ?case by simp
next
  case (Cons t ts)
  then show ?case
    by (auto simp: todo_of_def raw_status_def split: sum.splits prod.splits)
qed

lemma extract_todos_cases:
  assumes "extract_todos e state s = (r, s')"
  shows "(sent s' = sent s \<and> (r = None \<longrightarrow> (\<forall>ts. field state ''todos'' \<noteq> JArr ts))) \<or>
         (\<exists>ts todos. field state ''todos'' = JArr ts \<and> r = None \<and>
                      sent s' = sent s @ [TodosEv todos] \<and> map t_status todos = map raw_status ts)"
proof (cases "getp state ''todos''")
  case (Inl f)
  then show ?thesis using assms by (auto simp: extract_todos_def)
next
  case (Inr v)
  then have fv: "field state ''todos'' = v" by (auto simp: getp_def split: if_splits)
  show ?thesis
  proof (cases "\<exists>ts. v = JArr ts")
    case True
    then obtain ts where v: "v = JArr ts" by blast
    obtain r1 s1 where m: "map_items (todo_of e) ts s = (r1, s1)"
      by (cases "map_items (todo_of e) ts s")
    have q: "sent s1 = sent s" using map_items_quiet[OF todo_of_quiet m] by simp
    show ?thesis
    proof (cases r1)
      case (Inl f)
      then show ?thesis using assms Inr v m q by (auto simp: extract_todos_def)
    next
      case (Inr todos)
      then have "map t_status todos = map raw_status ts" using m map_items_todo_status by blast
      then show ?thesis using assms \<open>getp state ''todos'' = Inr v\<close> v m q Inr fv
        by (auto simp: extract_todos_def send_def)
    qed
  next
    case False
    then have "s' = s \<and> r = None" using assms Inr by (cases v) (auto simp: extract_todos_def)
    then show ?thesis using False fv by simp
  qed
qed

lemma extract_todos_seen:
  assumes "extract_todos e state s = (r, s')"
  shows "seenMessageIds s' = seenMessageIds s \<and> uuids s \<le> uuids s'"
proof (cases "getp state ''todos''")
  case (Inl f)
  then show ?thesis using assms by (simp add: extract_todos_def)
next
  case (Inr v)
  show ?thesis
  proof (cases "\<exists>ts. v = JArr ts")
    case True
    then obtain ts where v: "v = JArr ts" by blast
    obtain r1 s1 where m: "map_items (todo_of e) ts s = (r1, s1)"
      by (cases "map_items (todo_of e) ts s")
    note q = map_items_quiet[OF todo_of_quiet m]
    show ?thesis using assms Inr v m q by (cases r1) (auto simp: extract_todos_def send_def)
  next
    case False
    then have "s' = s" using assms Inr by (cases v) (auto simp: extract_todos_def)
    then show ?thesis by simp
  qed
qed

lemma extract_todos_grows:
  assumes "extract_todos e state s = (r, s')"
  shows "grows s s'"
  using extract_todos_cases[OF assms] extract_todos_seen[OF assms]
  by (auto simp: grows_def message_ids_def)

lemma extract_todos_ok:
  assumes "extract_todos e state s = (r, s')"
  shows "\<exists>evs. sent s' = sent s @ evs \<and> list_all (chunk_event_ok e state) evs"
  using extract_todos_cases[OF assms] by auto

lemma legacy_files_length: "legacy_files fs = Inr files \<Longrightarrow> length files = length fs"
  by (induction fs arbitrary: files) (auto split: sum.splits)

lemma extract_workspace_cases:
  assumes "extract_workspace e state s = (r, s')"
  shows "s' = s \<or> (\<exists>fs. chunk_event_ok e state
                          (WorkspaceEv fs (or_default (field state ''workspacePath'') (JStr (cwd e)))) \<and>
           r = None \<and>
           s' = send (WorkspaceEv fs (or_default (field state ''workspacePath'') (JStr (cwd e)))) s)"
proof (cases "getp state ''files''")
  case (Inl f)
  then show ?thesis using assms by (simp add: extract_workspace_def)
next
  case (Inr v)
  then have fv: "field state ''files'' = v" by (auto simp: getp_def split: if_splits)
  show ?thesis
  proof (cases v)
    case (JObj kvs)
    then show ?thesis using assms Inr fv
      by (auto simp: extract_workspace_def Let_def split: if_splits)
  next
    case (JArr fs)
    show ?thesis
    proof (cases "fs = []")
      case True
      then show ?thesis using assms Inr JArr by (simp add: extract_workspace_def)
    next
      case False
      show ?thesis
      proof (cases "legacy_files fs")
        case (Inl x)
        then show ?thesis using assms Inr JArr False by (simp add: extract_workspace_def)
      next
        case (Inr files)
        then have "files \<noteq> []" using legacy_files_length[OF Inr] False by auto
        then show ?thesis using assms \<open>getp state ''files'' = Inr v\<close> JArr False Inr fv
          by (auto simp: extract_workspace_def)
      qed
    qed
  qed (use assms Inr in \<open>auto simp: extract_workspace_def Let_def\<close>)
qed

lemma extract_workspace_grows:
  assumes "extract_workspace e state s = (r, s')"
  shows "grows s s'"
  using extract_workspace_cases[OF assms] by (auto intro: grows_refl grows_send)

lemma extract_workspace_ok:
  assumes "extract_workspace e state s = (r, s')"
  shows "\<exists>evs. sent s' = sent s @ evs \<and> list_all (chunk_event_ok e state) evs"
  using extract_workspace_cases[OF assms] by (auto simp: send_def)

lemma map_items_length: "map_items f xs s = (Inr ys, s') \<Longrightarrow> length ys = length xs"
  by (induction xs arbitrary: s ys s') (auto split: sum.splits prod.splits)

lemma extract_subagents_cases:
  assumes "extract_subagents e state s = (r, s')"
  shows "(sent s' = sent s \<and> seenMessageIds s' = seenMessageIds s \<and> uuids s \<le> uuids s') \<or>
         (\<exists>as. as \<noteq> [] \<and> r = None \<and> sent s' = sent s @ [SubagentsEv as] \<and>
               seenMessageIds s' = seenMessageIds s \<and> uuids s \<le> uuids s')"
proof (cases "getp state ''subagents''")
  case (Inl f)
  then show ?thesis using assms by (auto simp: extract_subagents_def)
next
  case (Inr v)
  show ?thesis
  proof (cases "\<exists>as. v = JArr as \<and> as \<noteq> []")
    case True
    then obtain raw where v: "v = JArr raw" "raw \<noteq> []" by blast
    obtain r1 s1 where m: "map_items (subagent_of e) raw s = (r1, s1)"
      by (cases "map_items (subagent_of e) raw s")
    note q = map_items_quiet[OF subagent_of_quiet m]
    show ?thesis
    proof (cases r1)
      case (Inl f)
      then show ?thesis using assms Inr v m q by (auto simp: extract_subagents_def)
    next
      case (Inr as)
      then have "as \<noteq> []" using map_items_length[of "subagent_of e" raw s as s1] m v by auto
      then show ?thesis using assms \<open>getp state ''subagents'' = Inr v\<close> v m q Inr
        by (auto simp: extract_subagents_def send_def)
    qed
  next
    case False
    then have "s' = s" using assms Inr by (cases v) (auto simp: extract_subagents_def)
    then show ?thesis by simp
  qed
qed

lemma extract_subagents_grows:
  assumes "extract_subagents e state s = (r, s')"
  shows "grows s s'"
  using extract_subagents_cases[OF assms] by (auto simp: grows_def message_ids_def)

lemma extract_subagents_ok:
  assumes "extract_subagents e state s = (r, s')"
  shows "\<exists>evs. sent s' = sent s @ evs \<and> list_all (chunk_event_ok e state) evs"
  using extract_subagents_cases[OF assms] by auto

lemma extract_interrupt_cases:
  assumes "extract_interrupt e state s = (r, s')"
  shows "(sent s' = sent s \<and> seenMessageIds s' = seenMessageIds s \<and> uuids s \<le> uuids s') \<or>
         (\<exists>rq. truthy (field state ''__interrupt__'') \<and> r = None \<and>
               sent s' = sent s @ [InterruptEv rq] \<and>
               seenMessageIds s' = seenMessageIds s \<and> uuids s \<le> uuids s')"
proof (cases "getp state ''__interrupt__''")
  case (Inl f)
  then show ?thesis using assms by (auto simp: extract_interrupt_def)
next
  case (Inr v)
  then have fv: "field state ''__interrupt__'' = v" by (auto simp: getp_def split: if_splits)
  show ?thesis
  proof (cases "truthy v")
    case True
    obtain rid s1 where u: "or_uuid e (field v ''id'') s = (rid, s1)"
      by (cases "or_uuid e (field v ''id'') s")
    note q = or_uuid_quiet[OF u]
    have "r = None" and "s' = send (InterruptEv
             \<lparr>r_id = rid, r_tool_call = field v ''tool_call'',
              r_allowed_decisions = [''approve'', ''reject'', ''edit'']\<rparr>) s1"
      using assms Inr True u by (simp_all add: extract_interrupt_def)
    then show ?thesis using q True fv by (simp add: send_def)
  next
    case False
    then have "s' = s" using assms Inr by (simp add: extract_interrupt_def)
    then show ?thesis by simp
  qed
qed

lemma extract_interrupt_grows:
  assumes "extract_interrupt e state s = (r, s')"
  shows "grows s s'"
  using extract_interrupt_cases[OF assms] by (auto simp: grows_def message_ids_def)

lemma extract_interrupt_ok:
  assumes "extract_interrupt e state s = (r, s')"
  shows "\<exists>evs. sent s' = sent s @ evs \<and> list_all (chunk_event_ok e state) evs"
  using extract_interrupt_cases[OF assms] by auto

subsection \<open>One chunk, the loop, the handler\<close>

lemma process_chunk_grows:
  assumes "process_chunk e state s = (r, s')"
  shows "grows s s'"
  using assms unfolding process_chunk_def
proof (rule run_steps_rel[where R = grows, rotated -1])
  show "\<And>s. grows s s" by (rule grows_refl)
  show "\<And>a b c. grows a b \<Longrightarrow> grows b c \<Longrightarrow> grows a c" by (rule grows_trans)
  fix k s0 r0 s1
  assume "k \<in> set [extract_messages e state, extract_todos e state, extract_workspace e state,
                extract_subagents e state, extract_interrupt e state]" and k: "k s0 = (r0, s1)"
  then consider "k = extract_messages e state" | "k = extract_todos e state"
    | "k = extract_workspace e state" | "k = extract_subagents e state"
    | "k = extract_interrupt e state" by auto
  then show "grows s0 s1"
  proof cases
    case 1
    then show ?thesis using k extract_messages_grows by simp
  next
    case 2
    then show ?thesis using k extract_todos_grows by simp
  next
    case 3
    then show ?thesis using k extract_workspace_grows by simp
  next
    case 4
    then show ?thesis using k extract_subagents_grows by simp
  next
    case 5
    then show ?thesis using k extract_interrupt_grows by simp
  qed
qed

lemma process_chunk_ok:
  assumes "process_chunk e state s = (r, s')"
  shows "\<exists>evs. sent s' = sent s @ evs \<and> list_all (chunk_event_ok e state) evs"
  using assms unfolding process_chunk_def
proof (rule run_steps_rel[where R = "\<lambda>a b. \<exists>evs. sent b = sent a @ evs \<and>
               list_all (chunk_event_ok e state) evs", rotated -1])
  show "\<And>s. \<exists>evs. sent s = sent s @ evs \<and> list_all (chunk_event_ok e state) evs"
    by simp
  show "\<And>a b c. \<exists>evs. sent b = sent a @ evs \<and> list_all (chunk_event_ok e state) evs \<Longrightarrow>
           \<exists>evs. sent c = sent b @ evs \<and> list_all (chunk_event_ok e state) evs \<Longrightarrow>
           \<exists>evs. sent c = sent a @ evs \<and> list_all (chunk_event_ok e state) evs"
    by (rule ok_trans)
  fix k s0 r0 s1
  assume "k \<in> set [extract_messages e state, extract_todos e state, extract_workspace e state,
                extract_subagents e state, extract_interrupt e state]" and k: "k s0 = (r0, s1)"
  then consider "k = extract_messages e state" | "k = extract_todos e state"
    | "k = extract_workspace e state" | "k = extract_subagents e state"
    | "k = extract_interrupt e state" by auto
  then show "\<exists>evs. sent s1 = sent s0 @ evs \<and> list_all (chunk_event_ok e state) evs"
  proof cases
    case 1
    then show ?thesis using k extract_messages_ok by simp
  next
    case 2
    then show ?thesis using k extract_todos_ok by simp
  next
    case 3
    then show ?thesis using k extract_workspace_ok by simp
  next
    case 4
    then show ?thesis using k extract_subagents_ok by simp
  next
    case 5
    then show ?thesis using k extract_interrupt_ok by simp
  qed
qed

lemma chunk_events_ok: "list_all (chunk_event_ok e state) (chunk_events e state s)"
proof -
  obtain r s' where p: "process_chunk e state s = (r, s')" by (cases "process_chunk e state s")
  from process_chunk_ok[OF p] show ?thesis by (auto simp: chunk_events_def p)
qed

lemma stream_loop_grows:
  "stream_loop e cancel i chunks ending s = (r, s') \<Longrightarrow> grows s s'"
proof (induction chunks arbitrary: i s)
  case Nil
  then show ?case by (simp add: grows_refl)
next
  case (Cons chunk chunks)
  show ?case
  proof (cases "aborted cancel i")
    case True
    then show ?thesis using Cons.prems by (simp add: grows_refl)
  next
    case False
    obtain r1 s1 where p: "process_chunk e chunk s = (r1, s1)"
      by (cases "process_chunk e chunk s")
    note g1 = process_chunk_grows[OF p]
    show ?thesis
    proof (cases r1)
      case None
      then have "stream_loop e cancel (Suc i) chunks ending s1 = (r, s')"
        using Cons.prems False p by simp
      then show ?thesis using Cons.IH g1 grows_trans by blast
    next
      case (Some f)
      then show ?thesis using Cons.prems False p g1 by simp
    qed
  qed
qed

subsection \<open>The claims about the channel as a whole\<close>

lemma invoke_try_grows:
  assumes "invoke_try e run cancel = (r, s)"
  shows "(r = None \<longrightarrow> (\<exists>s0. grows new_session s0 \<and> s = send DoneEv s0)) \<and>
         (r \<noteq> None \<longrightarrow> grows new_session s)"
proof (cases run)
  case (CreateRuntimeThrows f)
  then show ?thesis using assms by (auto simp: invoke_try_def grows_refl)
next
  case (StreamThrows f)
  then show ?thesis using assms by (auto simp: invoke_try_def grows_refl)
next
  case (Streams chunks ending)
  obtain r1 s1 where l: "stream_loop e cancel 0 chunks ending new_session = (r1, s1)"
    by (cases "stream_loop e cancel 0 chunks ending new_session")
  note g = stream_loop_grows[OF l]
  show ?thesis using assms Streams l g by (cases r1) (auto simp: invoke_try_def)
qed

text \<open>With a window, what is sent is a run of non-terminal events and one terminal event.\<close>

lemma invoke_shape:
  "\<exists>evs t. invoke e True run cancel = evs @ [t] \<and> is_terminal t \<and>
           list_all (\<lambda>ev. \<not> is_terminal ev) evs \<and> distinct (message_ids evs)"
proof -
  obtain r s where t: "invoke_try e run cancel = (r, s)" by (cases "invoke_try e run cancel")
  note g = invoke_try_grows[OF t]
  show ?thesis
  proof (cases r)
    case None
    then obtain s0 where s0: "grows new_session s0" "s = send DoneEv s0" using g by blast
    then obtain evs where "sent s0 = evs" "list_all (\<lambda>ev. \<not> is_terminal ev) evs"
      "distinct (message_ids evs)"
      by (auto simp: grows_def new_session_def)
    moreover have "invoke e True run cancel = sent s0 @ [DoneEv]"
      using t None s0 by (simp add: invoke_def send_def)
    ultimately show ?thesis by auto
  next
    case (Some f)
    then have "grows new_session s" using g by simp
    then obtain evs where "sent s = evs" "list_all (\<lambda>ev. \<not> is_terminal ev) evs"
      "distinct (message_ids evs)"
      by (auto simp: grows_def new_session_def)
    moreover have "invoke e True run cancel = sent s @ [ErrorEv (error_message f)]"
      using t Some by (simp add: invoke_def send_def)
    ultimately show ?thesis by auto
  qed
qed

lemma filter_none: "list_all (\<lambda>x. \<not> P x) xs \<Longrightarrow> filter P xs = []"
  by (induction xs) auto

text \<open>
  Claim C1, as amended. When a window is found for the sender, the handler sends exactly
  one terminal event (Done or Error), it is the last event sent, and no event before it
  is terminal. When no window is found (line 19) the handler returns before the run
  starts and sends nothing at all, so that invocation has no terminal event.
\<close>

theorem invoke_one_terminal_event_last:
  "(\<not> window \<longrightarrow> invoke e window run cancel = []) \<and>
   (window \<longrightarrow> length (filter is_terminal (invoke e window run cancel)) = 1 \<and>
                invoke e window run cancel \<noteq> [] \<and>
                is_terminal (last (invoke e window run cancel)) \<and>
                filter is_terminal (butlast (invoke e window run cancel)) = [])"
proof (cases window)
  case False
  then show ?thesis by (simp add: invoke_def)
next
  case True
  obtain evs t where i: "invoke e True run cancel = evs @ [t]" "is_terminal t"
    "list_all (\<lambda>ev. \<not> is_terminal ev) evs"
    using invoke_shape by blast
  have "filter is_terminal evs = []" using i(3) by (rule filter_none)
  then show ?thesis using True i by simp
qed

text \<open>
  Witness for C1: a window, a first chunk with one message and a second chunk \<^verbatim>\<open>null\<close>,
  on which line 59 throws; the Error event is the only terminal event.
\<close>

theorem invoke_one_terminal_event_last_witness:
  "invoke example_env True
     (Streams [JObj [(''messages'', JArr [JObj [(''id'', JStr ''m1''), (''content'', JStr ''hi'')]])],
               JNull] None) None
   = [MessageEv \<lparr>m_id = JStr ''m1'', m_role = Assistant, m_content = ''hi'',
                  m_tool_calls = JUndefined, m_created_at = 0\<rparr>,
      ErrorEv (''Cannot read properties of null (reading '' @ quoted ''messages'' @ '')'')]
   \<and> length (filter is_terminal (invoke example_env True
     (Streams [JObj [(''messages'', JArr [JObj [(''id'', JStr ''m1''), (''content'', JStr ''hi'')]])],
               JNull] None) None)) = 1"
proof -
  have "invoke example_env True
     (Streams [JObj [(''messages'', JArr [JObj [(''id'', JStr ''m1''), (''content'', JStr ''hi'')]])],
               JNull] None) None
   = [MessageEv \<lparr>m_id = JStr ''m1'', m_role = Assistant, m_content = ''hi'',
                  m_tool_calls = JUndefined, m_created_at = 0\<rparr>,
      ErrorEv (''Cannot read properties of null (reading '' @ quoted ''messages'' @ '')'')]"
    by code_simp
  then show ?thesis
    using invoke_one_terminal_event_last[of True example_env
       "Streams [JObj [(''messages'', JArr [JObj [(''id'', JStr ''m1''), (''content'', JStr ''hi'')]])],
               JNull] None" None]
    by simp
qed

text \<open>
  Counterexample to C1 as stated: an invocation whose sender has no window sends no
  terminal event, neither Done nor Error.
\<close>

theorem invoke_without_window_sends_nothing:
  "filter is_terminal (invoke example_env False (Streams [] None) None) = []"
  by (simp add: invoke_def)

text \<open>
  Claim C2. Whatever the snapshots of a run contain, no two Message events sent in the
  run carry the same identifier: an identifier that occurs again, in the same snapshot
  or in a later one, gives at most one Message event.
\<close>

theorem message_ids_distinct: "distinct (message_ids (invoke e window run cancel))"
proof (cases window)
  case False
  then show ?thesis by (simp add: invoke_def message_ids_def)
next
  case True
  obtain evs t where i: "invoke e True run cancel = evs @ [t]" "is_terminal t"
    "distinct (message_ids evs)"
    using invoke_shape by blast
  have "messages_in [t] = []" using i(2) by (cases t) auto
  then show ?thesis using True i by (simp add: message_ids_def messages_in_append)
qed



subsection \<open>The claims about \<^verbatim>\<open>agent:interrupt\<close>\<close>

text \<open>
  Claim C3, as amended. The handler never looks for a pending interrupt and has no
  NoPendingInterrupt error of its own: when its promise is rejected, it is with the fault
  that \<^verbatim>\<open>createAgentRuntime\<close> or the runtime's \<^verbatim>\<open>invoke\<close> threw. For an approve decision,
  on any thread, it calls \<^verbatim>\<open>agent.invoke(null, config)\<close> and its outcome is that call's.
\<close>

theorem agent_interrupt_fails_only_as_runtime:
  "(fst (agent_interrupt rt threadId decision) = Inl f \<longrightarrow>
      create_throws rt = Some f \<or> invoke_throws rt threadId = Some f) \<and>
   (create_throws rt = None \<and> d_type decision = ''approve'' \<longrightarrow>
      agent_interrupt rt threadId decision =
        (case invoke_throws rt threadId of None \<Rightarrow> Inr () | Some g \<Rightarrow> Inl g,
         [Invoke JNull threadId]))"
  by (cases "create_throws rt"; cases "invoke_throws rt threadId")
     (auto simp: agent_interrupt_def)

text \<open>
  Witness for C3: an approve decision on a runtime whose \<^verbatim>\<open>invoke\<close> throws; the handler
  fails with the runtime's fault.
\<close>

theorem agent_interrupt_fails_only_as_runtime_witness:
  "create_throws failing_runtime = None \<and>
   agent_interrupt failing_runtime ''t1'' \<lparr>d_type = ''approve'', d_payload = JUndefined\<rparr>
     = (Inl (ErrorObj ''no checkpoint''), [Invoke JNull ''t1'']) \<and>
   invoke_throws failing_runtime ''t1'' = Some (ErrorObj ''no checkpoint'')"
proof -
  have a: "create_throws failing_runtime = None" by (simp add: failing_runtime_def)
  have b: "invoke_throws failing_runtime ''t1'' = Some (ErrorObj ''no checkpoint'')"
    by (simp add: failing_runtime_def)
  have c: "d_type \<lparr>d_type = ''approve'', d_payload = JUndefined\<rparr> = ''approve''" by simp
  show ?thesis
    using a b c agent_interrupt_fails_only_as_runtime[of failing_runtime "''t1''"
        "\<lparr>d_type = ''approve'', d_payload = JUndefined\<rparr>" "ErrorObj ''no checkpoint''"]
    by simp
qed

text \<open>
  Counterexample to C3 as stated: a reject decision for a thread that was never paused,
  on a runtime that does not throw, is fulfilled without any call on the runtime.
\<close>

theorem resume_never_paused_thread_succeeds:
  "agent_interrupt quiet_runtime ''never-paused'' \<lparr>d_type = ''reject'', d_payload = JUndefined\<rparr>
     = (Inr (), [])"
  by (simp add: agent_interrupt_def quiet_runtime_def)

text \<open>
  Claim C4, at the failing inputs: for a reject and for an edit decision the handler makes
  no call on the runtime at all, neither a cancellation of the tool call, nor an update of
  its arguments, nor a resumption; the payload of the edit is not read.
\<close>

theorem reject_and_edit_make_no_runtime_call:
  "agent_interrupt quiet_runtime ''t1'' \<lparr>d_type = ''reject'', d_payload = JUndefined\<rparr>
     = (Inr (), []) \<and>
   agent_interrupt quiet_runtime ''t1''
     \<lparr>d_type = ''edit'', d_payload = JObj [(''args'', JObj [(''path'', JStr ''b.txt'')])]\<rparr>
     = (Inr (), []) \<and>
   agent_interrupt quiet_runtime ''t1'' \<lparr>d_type = ''approve'', d_payload = JUndefined\<rparr>
     = (Inr (), [Invoke JNull ''t1''])"
  by (simp add: agent_interrupt_def quiet_runtime_def)

subsection \<open>The claims about one snapshot\<close>

lemma messages_in_set: "(m \<in> set (messages_in evs)) = (MessageEv m \<in> set evs)"
  by (induction evs rule: messages_in.induct) auto

lemma todos_in_set: "(ts \<in> set (todos_in evs)) = (TodosEv ts \<in> set evs)"
  by (induction evs rule: todos_in.induct) auto

lemma workspaces_in_set: "((fs, p) \<in> set (workspaces_in evs)) = (WorkspaceEv fs p \<in> set evs)"
  by (induction evs rule: workspaces_in.induct) auto

lemma chunk_event_okD:
  assumes "ev \<in> set (chunk_events e state s)"
  shows "chunk_event_ok e state ev"
  using chunk_events_ok[of e state s] assms by (simp add: list_all_iff)

text \<open>A chunk processed without a throw went through the five extractions.\<close>

lemma process_chunk_None:
  assumes "process_chunk e state s = (None, s')"
  shows "\<exists>s1 s2 s3 s4.
           extract_messages e state s = (None, s1) \<and> extract_todos e state s1 = (None, s2) \<and>
           extract_workspace e state s2 = (None, s3) \<and> extract_subagents e state s3 = (None, s4) \<and>
           extract_interrupt e state s4 = (None, s')"
proof -
  obtain r1 s1 where 1: "extract_messages e state s = (r1, s1)"
    by (cases "extract_messages e state s")
  obtain r2 s2 where 2: "extract_todos e state s1 = (r2, s2)"
    by (cases "extract_todos e state s1")
  obtain r3 s3 where 3: "extract_workspace e state s2 = (r3, s3)"
    by (cases "extract_workspace e state s2")
  obtain r4 s4 where 4: "extract_subagents e state s3 = (r4, s4)"
    by (cases "extract_subagents e state s3")
  obtain r5 s5 where 5: "extract_interrupt e state s4 = (r5, s5)"
    by (cases "extract_interrupt e state s4")
  have r1: "r1 = None" using assms 1 by (cases r1) (simp_all add: process_chunk_def)
  have r2: "r2 = None" using assms 1 2 r1 by (cases r2) (simp_all add: process_chunk_def)
  have r3: "r3 = None" using assms 1 2 3 r1 r2 by (cases r3) (simp_all add: process_chunk_def)
  have r4: "r4 = None" using assms 1 2 3 4 r1 r2 r3
    by (cases r4) (simp_all add: process_chunk_def)
  have r5: "r5 = None \<and> s5 = s'" using assms 1 2 3 4 5 r1 r2 r3 r4
    by (cases r5) (simp_all add: process_chunk_def)
  show ?thesis using 1 2 3 4 5 r1 r2 r3 r4 r5 by simp
qed

text \<open>The loop over the messages sends Message events only.\<close>

lemma extract_messages_kind:
  assumes "extract_messages e state s = (r, s')"
  shows "\<exists>evs. sent s' = sent s @ evs \<and> todos_in evs = [] \<and> workspaces_in evs = []"
proof -
  show ?thesis
  proof (cases "getp state ''messages''")
    case (Inl f)
    then have "s' = s" using assms by (simp add: extract_messages_def)
    then show ?thesis by simp
  next
    case (Inr v)
    show ?thesis
    proof (cases "\<exists>msgs. v = JArr msgs")
      case True
      then obtain msgs where v: "v = JArr msgs" by blast
      have run: "run_steps (map (process_message e) msgs) s = (r, s')"
        using assms Inr v by (simp add: extract_messages_def)
      show ?thesis
      proof (rule run_steps_rel[where R = "\<lambda>a b. \<exists>evs. sent b = sent a @ evs \<and>
               todos_in evs = [] \<and> workspaces_in evs = []", OF _ _ _ run])
        show "\<And>s. \<exists>evs. sent s = sent s @ evs \<and> todos_in evs = [] \<and> workspaces_in evs = []"
          by simp
      next
        fix a b c :: session
        assume "\<exists>evs. sent b = sent a @ evs \<and> todos_in evs = [] \<and> workspaces_in evs = []"
          and "\<exists>evs. sent c = sent b @ evs \<and> todos_in evs = [] \<and> workspaces_in evs = []"
        then obtain xs ys where "sent b = sent a @ xs" "todos_in xs = []" "workspaces_in xs = []"
          "sent c = sent b @ ys" "todos_in ys = []" "workspaces_in ys = []" by blast
        then have "sent c = sent a @ (xs @ ys) \<and> todos_in (xs @ ys) = [] \<and>
                   workspaces_in (xs @ ys) = []"
          by (simp add: todos_in_append workspaces_in_append)
        then show "\<exists>evs. sent c = sent a @ evs \<and> todos_in evs = [] \<and> workspaces_in evs = []"
          by blast
      next
        fix k s0 r0 s1
        assume "k \<in> set (map (process_message e) msgs)" and k: "k s0 = (r0, s1)"
        then obtain msg where "k = process_message e msg" by auto
        then have "process_message e msg s0 = (r0, s1)" using k by simp
        from process_message_cases[OF this]
        show "\<exists>evs. sent s1 = sent s0 @ evs \<and> todos_in evs = [] \<and> workspaces_in evs = []"
          by auto
      qed
    next
      case False
      then have "s' = s" using assms Inr by (cases v) (auto simp: extract_messages_def)
      then show ?thesis by simp
    qed
  qed
qed

lemma extract_workspace_object:
  assumes "field state ''files'' = JObj kvs" and "kvs \<noteq> []"
  shows "extract_workspace e state s =
           (None, send (WorkspaceEv (map file_of_entry kvs)
                          (or_default (field state ''workspacePath'') (JStr (cwd e)))) s)"
proof -
  have "\<not> nullish state" using assms(1) by (cases state) auto
  then have "getp state ''files'' = Inr (JObj kvs)" using assms(1) by (simp add: getp_def)
  then show ?thesis using assms(2) by (simp add: extract_workspace_def)
qed

text \<open>
  What a chunk processed without a throw sends of Todos and Workspace events: one Todos
  event when \<^verbatim>\<open>state.todos\<close> is an array, one Workspace event when \<^verbatim>\<open>state.files\<close> is an
  object with an entry.
\<close>

lemma chunk_events_complete:
  assumes "process_chunk e state s = (None, s')"
  shows "(\<forall>ts. field state ''todos'' = JArr ts \<longrightarrow>
            (\<exists>todos. todos_in (chunk_events e state s) = [todos] \<and>
                     map t_status todos = map raw_status ts)) \<and>
         (\<forall>kvs. field state ''files'' = JObj kvs \<and> kvs \<noteq> [] \<longrightarrow>
            workspaces_in (chunk_events e state s) =
              [(map file_of_entry kvs, or_default (field state ''workspacePath'') (JStr (cwd e)))])"
proof -
  obtain s1 s2 s3 s4 where st:
    "extract_messages e state s = (None, s1)" "extract_todos e state s1 = (None, s2)"
    "extract_workspace e state s2 = (None, s3)" "extract_subagents e state s3 = (None, s4)"
    "extract_interrupt e state s4 = (None, s')"
    using process_chunk_None[OF assms] by blast
  obtain e1 where e1: "sent s1 = sent s @ e1" "todos_in e1 = []" "workspaces_in e1 = []"
    using extract_messages_kind[OF st(1)] by blast
  obtain e2 where e2: "sent s2 = sent s1 @ e2" "workspaces_in e2 = []"
    "\<forall>ts. field state ''todos'' = JArr ts \<longrightarrow>
       (\<exists>todos. todos_in e2 = [todos] \<and> map t_status todos = map raw_status ts)"
    using extract_todos_cases[OF st(2)] by auto
  obtain e3 where e3: "sent s3 = sent s2 @ e3" "todos_in e3 = []"
    "\<forall>kvs. field state ''files'' = JObj kvs \<and> kvs \<noteq> [] \<longrightarrow>
       workspaces_in e3 =
         [(map file_of_entry kvs, or_default (field state ''workspacePath'') (JStr (cwd e)))]"
  proof (cases "\<exists>kvs. field state ''files'' = JObj kvs \<and> kvs \<noteq> []")
    case True
    then obtain kvs where k: "field state ''files'' = JObj kvs" "kvs \<noteq> []" by blast
    have "s3 = send (WorkspaceEv (map file_of_entry kvs)
                       (or_default (field state ''workspacePath'') (JStr (cwd e)))) s2"
      using extract_workspace_object[OF k, of e s2] st(3) by simp
    then show ?thesis using that k by (simp add: send_def)
  next
    case False
    from extract_workspace_cases[OF st(3)]
    obtain evs where "sent s3 = sent s2 @ evs" "todos_in evs = []"
      by (auto simp: send_def)
    then show ?thesis using that False by blast
  qed
  obtain e4 where e4: "sent s4 = sent s3 @ e4" "todos_in e4 = []" "workspaces_in e4 = []"
    using extract_subagents_cases[OF st(4)] by auto
  obtain e5 where e5: "sent s' = sent s4 @ e5" "todos_in e5 = []" "workspaces_in e5 = []"
    using extract_interrupt_cases[OF st(5)] by auto
  have ce: "chunk_events e state s = e1 @ e2 @ e3 @ e4 @ e5"
    using assms e1(1) e2(1) e3(1) e4(1) e5(1) by (simp add: chunk_events_def)
  have t: "todos_in (chunk_events e state s) = todos_in e2"
    using ce e1(2) e3(2) e4(2) e5(2) by (simp add: todos_in_append)
  have w: "workspaces_in (chunk_events e state s) = workspaces_in e3"
    using ce e1(3) e2(2) e4(3) e5(3) by (simp add: workspaces_in_append)
  show ?thesis using t w e2(3) e3(3) by simp
qed

text \<open>
  Claim C6. Every Message event sent for a snapshot has role assistant and non-empty
  content, and comes from an item of \<^verbatim>\<open>state.messages\<close> whose derived role is assistant
  and whose extracted content is that non-empty string. A snapshot whose only message has
  derived role tool, or empty extracted content, gives no Message event.
\<close>

theorem message_only_for_assistant_with_content:
  "(\<forall>m \<in> set (messages_in (chunk_events e state s)).
      m_role m = Assistant \<and> m_content m \<noteq> [] \<and>
      (\<exists>item \<in> set (message_items state).
         message_role item = Inr Assistant \<and> message_content e item = Inr (m_content m))) \<and>
   (message_items state = [only] \<and>
      (message_role only = Inr Tool \<or> message_content e only = Inr []) \<longrightarrow>
    messages_in (chunk_events e state s) = [])"
proof -
  have all: "\<forall>m \<in> set (messages_in (chunk_events e state s)).
      m_role m = Assistant \<and> m_content m \<noteq> [] \<and>
      (\<exists>item \<in> set (message_items state).
         message_role item = Inr Assistant \<and> message_content e item = Inr (m_content m))"
  proof
    fix m
    assume "m \<in> set (messages_in (chunk_events e state s))"
    then have "MessageEv m \<in> set (chunk_events e state s)" by (simp add: messages_in_set)
    then have "chunk_event_ok e state (MessageEv m)" by (rule chunk_event_okD)
    then show "m_role m = Assistant \<and> m_content m \<noteq> [] \<and>
      (\<exists>item \<in> set (message_items state).
         message_role item = Inr Assistant \<and> message_content e item = Inr (m_content m))"
      by simp
  qed
  have one: "messages_in (chunk_events e state s) = []"
    if items: "message_items state = [only]"
      and no: "message_role only = Inr Tool \<or> message_content e only = Inr []"
  proof (cases "messages_in (chunk_events e state s)")
    case Nil
    then show ?thesis .
  next
    case (Cons m ms)
    then have "m \<in> set (messages_in (chunk_events e state s))" by simp
    then have "m_content m \<noteq> []" and
      "\<exists>item \<in> set (message_items state).
         message_role item = Inr Assistant \<and> message_content e item = Inr (m_content m)"
      using all by blast+
    then have "message_role only = Inr Assistant \<and> message_content e only \<noteq> Inr []"
      using items by auto
    then show ?thesis using no by auto
  qed
  show ?thesis using all one by blast
qed

text \<open>
  Witness for C6: a snapshot whose only message is a tool message with content; no
  Message event is sent for it.
\<close>

theorem message_only_for_assistant_with_content_witness:
  "message_items (JObj [(''messages'',
       JArr [JObj [(''id'', JStr ''t1''), (''_getType'', JFun (JStr ''tool'')),
                   (''content'', JStr ''42'')]])])
     = [JObj [(''id'', JStr ''t1''), (''_getType'', JFun (JStr ''tool'')),
              (''content'', JStr ''42'')]] \<and>
   message_role (JObj [(''id'', JStr ''t1''), (''_getType'', JFun (JStr ''tool'')),
                       (''content'', JStr ''42'')]) = Inr Tool \<and>
   messages_in (chunk_events example_env (JObj [(''messages'',
       JArr [JObj [(''id'', JStr ''t1''), (''_getType'', JFun (JStr ''tool'')),
                   (''content'', JStr ''42'')]])]) new_session) = []"
proof -
  have a: "message_items (JObj [(''messages'',
       JArr [JObj [(''id'', JStr ''t1''), (''_getType'', JFun (JStr ''tool'')),
                   (''content'', JStr ''42'')]])])
     = [JObj [(''id'', JStr ''t1''), (''_getType'', JFun (JStr ''tool'')),
              (''content'', JStr ''42'')]]"
    by (simp add: message_items_def)
  have b: "message_role (JObj [(''id'', JStr ''t1''), (''_getType'', JFun (JStr ''tool'')),
                       (''content'', JStr ''42'')]) = Inr Tool"
    by (simp add: message_role_def)
  show ?thesis
    using a b message_only_for_assistant_with_content[of example_env
        "JObj [(''messages'',
           JArr [JObj [(''id'', JStr ''t1''), (''_getType'', JFun (JStr ''tool'')),
                       (''content'', JStr ''42'')]])]" new_session
        "JObj [(''id'', JStr ''t1''), (''_getType'', JFun (JStr ''tool'')),
               (''content'', JStr ''42'')]"]
    by blast
qed

text \<open>
  What the test of line 108 decides: whether \<^verbatim>\<open>state.todos\<close> is an array, not whether it
  has items. No Todos event is sent when the field is absent or not an array; for an
  array, a chunk processed without a throw sends one Todos event with a Todo per item.
\<close>

lemma todos_event_iff_array:
  "((\<forall>ts. field state ''todos'' \<noteq> JArr ts) \<longrightarrow> todos_in (chunk_events e state s) = []) \<and>
   (field state ''todos'' = JArr ts \<and> fst (process_chunk e state s) = None \<longrightarrow>
      (\<exists>todos. todos_in (chunk_events e state s) = [todos] \<and> length todos = length ts))"
proof -
  have none: "todos_in (chunk_events e state s) = []" if "\<forall>ts. field state ''todos'' \<noteq> JArr ts"
  proof (cases "todos_in (chunk_events e state s)")
    case Nil
    then show ?thesis .
  next
    case (Cons todos rest)
    then have "TodosEv todos \<in> set (chunk_events e state s)"
      using todos_in_set[of todos "chunk_events e state s"] by simp
    then have "chunk_event_ok e state (TodosEv todos)" by (rule chunk_event_okD)
    then show ?thesis using that by simp
  qed
  have some: "\<exists>todos. todos_in (chunk_events e state s) = [todos] \<and> length todos = length ts"
    if f: "field state ''todos'' = JArr ts" and c: "fst (process_chunk e state s) = None"
  proof -
    obtain s' where "process_chunk e state s = (None, s')"
      using c by (cases "process_chunk e state s") simp
    from chunk_events_complete[OF this] f
    obtain todos where t: "todos_in (chunk_events e state s) = [todos]"
      "map t_status todos = map raw_status ts" by blast
    have "length todos = length ts" using t(2) by (rule map_eq_imp_length_eq)
    then show ?thesis using t(1) by blast
  qed
  show ?thesis using none some by blast
qed

text \<open>
  Claim C7, at the failing input. The claim has no Todos event for an empty list. For
  the snapshot \<^verbatim>\<open>{ todos: [] }\<close> the handler sends a Todos event with no item: line 108
  tests \<^verbatim>\<open>state.todos && Array.isArray(state.todos)\<close>, and an empty array is truthy. The
  sibling extractions test \<^verbatim>\<open>length > 0\<close> (lines 133, 145, 170) and send nothing for an
  empty \<^verbatim>\<open>subagents\<close> array, an empty \<^verbatim>\<open>files\<close> array or an empty \<^verbatim>\<open>files\<close> object.
\<close>

theorem empty_todos_array_sends_todos_event:
  "chunk_events example_env (JObj [(''todos'', JArr [])]) new_session = [TodosEv []] \<and>
   chunk_events example_env (JObj [(''subagents'', JArr [])]) new_session = [] \<and>
   chunk_events example_env (JObj [(''files'', JArr [])]) new_session = [] \<and>
   chunk_events example_env (JObj [(''files'', JObj [])]) new_session = []"
  by code_simp

text \<open>
  Claim C8. Every Workspace event sent for a snapshot has at least one file. A snapshot
  whose \<^verbatim>\<open>files\<close> is the empty object gives no Workspace event. A snapshot whose \<^verbatim>\<open>files\<close>
  is \<^verbatim>\<open>{ "a.txt": { content: "hi" } }\<close>, processed without a throw, gives exactly one
  Workspace event, with the one entry of path \<^verbatim>\<open>a.txt\<close>, \<^verbatim>\<open>is_dir\<close> false and size 2.
\<close>

theorem workspace_event_only_with_files:
  "(\<forall>w \<in> set (workspaces_in (chunk_events e state s)). fst w \<noteq> []) \<and>
   (field state ''files'' = JObj [] \<longrightarrow> workspaces_in (chunk_events e state s) = []) \<and>
   (field state ''files'' = JObj [(''a.txt'', JObj [(''content'', JStr ''hi'')])] \<and>
      fst (process_chunk e state s) = None \<longrightarrow>
    workspaces_in (chunk_events e state s) =
      [([\<lparr>f_path = JStr ''a.txt'', f_is_dir = JBool False, f_size = JNum 2\<rparr>],
        or_default (field state ''workspacePath'') (JStr (cwd e)))])"
proof -
  have ok: "chunk_event_ok e state (WorkspaceEv fs p)"
    if "(fs, p) \<in> set (workspaces_in (chunk_events e state s))" for fs p
  proof -
    have "WorkspaceEv fs p \<in> set (chunk_events e state s)"
      using that by (simp add: workspaces_in_set)
    then show ?thesis by (rule chunk_event_okD)
  qed
  have nonempty: "\<forall>w \<in> set (workspaces_in (chunk_events e state s)). fst w \<noteq> []"
  proof
    fix w
    assume w: "w \<in> set (workspaces_in (chunk_events e state s))"
    obtain fs p where "w = (fs, p)" by (cases w)
    then show "fst w \<noteq> []" using ok[of fs p] w by simp
  qed
  have empty: "workspaces_in (chunk_events e state s) = []" if "field state ''files'' = JObj []"
  proof (cases "workspaces_in (chunk_events e state s)")
    case Nil
    then show ?thesis .
  next
    case (Cons w rest)
    obtain fs p where "w = (fs, p)" by (cases w)
    then have "chunk_event_ok e state (WorkspaceEv fs p)" using ok[of fs p] Cons by simp
    then have "fs \<noteq> [] \<and> fs = []" using that by auto
    then show ?thesis by blast
  qed
  have single: "workspaces_in (chunk_events e state s) =
      [([\<lparr>f_path = JStr ''a.txt'', f_is_dir = JBool False, f_size = JNum 2\<rparr>],
        or_default (field state ''workspacePath'') (JStr (cwd e)))]"
    if f: "field state ''files'' = JObj [(''a.txt'', JObj [(''content'', JStr ''hi'')])]"
      and c: "fst (process_chunk e state s) = None"
  proof -
    obtain s' where "process_chunk e state s = (None, s')"
      using c by (cases "process_chunk e state s") simp
    from chunk_events_complete[OF this] f
    have "workspaces_in (chunk_events e state s) =
            [(map file_of_entry [(''a.txt'', JObj [(''content'', JStr ''hi'')])],
              or_default (field state ''workspacePath'') (JStr (cwd e)))]"
      by blast
    then show ?thesis by (simp add: file_of_entry_def)
  qed
  show ?thesis using nonempty empty single by blast
qed

text \<open>
  Witness for C8: the snapshot \<^verbatim>\<open>{ files: { "a.txt": { content: "hi" } } }\<close> is processed
  without a throw and sends the one Workspace event, with the working directory as path.
\<close>

theorem workspace_event_only_with_files_witness:
  "field (JObj [(''files'', JObj [(''a.txt'', JObj [(''content'', JStr ''hi'')])])]) ''files''
     = JObj [(''a.txt'', JObj [(''content'', JStr ''hi'')])] \<and>
   fst (process_chunk example_env
          (JObj [(''files'', JObj [(''a.txt'', JObj [(''content'', JStr ''hi'')])])])
          new_session) = None \<and>
   workspaces_in (chunk_events example_env
          (JObj [(''files'', JObj [(''a.txt'', JObj [(''content'', JStr ''hi'')])])])
          new_session)
     = [([\<lparr>f_path = JStr ''a.txt'', f_is_dir = JBool False, f_size = JNum 2\<rparr>], JStr ''/work'')]"
proof -
  have a: "field (JObj [(''files'', JObj [(''a.txt'', JObj [(''content'', JStr ''hi'')])])]) ''files''
     = JObj [(''a.txt'', JObj [(''content'', JStr ''hi'')])]"
    by simp
  have b: "fst (process_chunk example_env
          (JObj [(''files'', JObj [(''a.txt'', JObj [(''content'', JStr ''hi'')])])])
          new_session) = None"
    by code_simp
  have c: "or_default (field (JObj [(''files'', JObj [(''a.txt'', JObj [(''content'', JStr ''hi'')])])])
                         ''workspacePath'') (JStr (cwd example_env)) = JStr ''/work''"
    by (simp add: or_default_def example_env_def)
  show ?thesis
    using a b c workspace_event_only_with_files[of example_env
        "JObj [(''files'', JObj [(''a.txt'', JObj [(''content'', JStr ''hi'')])])]" new_session]
    by simp
qed

text \<open>
  Claim C9, as amended. In every Todos event each Todo's status is the raw item's
  \<^verbatim>\<open>status\<close> when that is truthy and \<^verbatim>\<open>pending\<close> otherwise (the cast of line 114 checks
  nothing); so the statuses are among pending, in_progress, completed and cancelled
  whenever every raw status is missing, falsy or one of these four.
\<close>

theorem todo_status_is_raw_or_pending:
  "\<forall>todos \<in> set (todos_in (chunk_events e state s)).
     map t_status todos = map raw_status (todo_items state) \<and>
     (list_all (\<lambda>t. \<not> truthy (field t ''status'') \<or> field t ''status'' \<in> set todo_statuses)
        (todo_items state) \<longrightarrow>
      list_all (\<lambda>t. t_status t \<in> set todo_statuses) todos)"
proof
  fix todos
  assume "todos \<in> set (todos_in (chunk_events e state s))"
  then have "TodosEv todos \<in> set (chunk_events e state s)" by (simp add: todos_in_set)
  then have "chunk_event_ok e state (TodosEv todos)" by (rule chunk_event_okD)
  then obtain ts where ts: "field state ''todos'' = JArr ts"
    "map t_status todos = map raw_status ts" by auto
  have items: "todo_items state = ts" using ts(1) by (simp add: todo_items_def)
  have stat: "list_all (\<lambda>t. t_status t \<in> set todo_statuses) todos"
    if raw: "list_all (\<lambda>t. \<not> truthy (field t ''status'') \<or> field t ''status'' \<in> set todo_statuses) ts"
  proof -
    have "\<forall>t \<in> set ts. raw_status t \<in> set todo_statuses"
      using raw by (auto simp: list_all_iff raw_status_def or_default_def todo_statuses_def)
    then have "\<forall>x \<in> set (map raw_status ts). x \<in> set todo_statuses" by simp
    then have "\<forall>x \<in> set (map t_status todos). x \<in> set todo_statuses" using ts(2) by simp
    then show ?thesis by (simp add: list_all_iff)
  qed
  show "map t_status todos = map raw_status (todo_items state) \<and>
     (list_all (\<lambda>t. \<not> truthy (field t ''status'') \<or> field t ''status'' \<in> set todo_statuses)
        (todo_items state) \<longrightarrow>
      list_all (\<lambda>t. t_status t \<in> set todo_statuses) todos)"
    using ts(2) items stat by simp
qed

text \<open>
  Witness for C9: the raw items \<^verbatim>\<open>{ id: 'a', status: 'completed' }\<close> and \<^verbatim>\<open>{ id: 'b' }\<close>
  give the statuses completed and pending.
\<close>

theorem todo_status_is_raw_or_pending_witness:
  "todos_in (chunk_events example_env
     (JObj [(''todos'', JArr [JObj [(''id'', JStr ''a''), (''status'', JStr ''completed'')],
                              JObj [(''id'', JStr ''b'')]])]) new_session)
     = [[\<lparr>t_id = JStr ''a'', t_content = JStr [], t_status = JStr ''completed''\<rparr>,
         \<lparr>t_id = JStr ''b'', t_content = JStr [], t_status = JStr ''pending''\<rparr>]] \<and>
   list_all (\<lambda>t. t_status t \<in> set todo_statuses)
     [\<lparr>t_id = JStr ''a'', t_content = JStr [], t_status = JStr ''completed''\<rparr>,
      \<lparr>t_id = JStr ''b'', t_content = JStr [], t_status = JStr ''pending''\<rparr>]"
proof -
  have a: "todos_in (chunk_events example_env
     (JObj [(''todos'', JArr [JObj [(''id'', JStr ''a''), (''status'', JStr ''completed'')],
                              JObj [(''id'', JStr ''b'')]])]) new_session)
     = [[\<lparr>t_id = JStr ''a'', t_content = JStr [], t_status = JStr ''completed''\<rparr>,
         \<lparr>t_id = JStr ''b'', t_content = JStr [], t_status = JStr ''pending''\<rparr>]]"
    by code_simp
  have b: "list_all (\<lambda>t. \<not> truthy (field t ''status'') \<or> field t ''status'' \<in> set todo_statuses)
     (todo_items (JObj [(''todos'', JArr [JObj [(''id'', JStr ''a''), (''status'', JStr ''completed'')],
                              JObj [(''id'', JStr ''b'')]])]))"
    by (simp add: todo_items_def todo_statuses_def)
  show ?thesis
    using a b todo_status_is_raw_or_pending[of example_env
     "JObj [(''todos'', JArr [JObj [(''id'', JStr ''a''), (''status'', JStr ''completed'')],
                              JObj [(''id'', JStr ''b'')]])]" new_session]
    by simp
qed

text \<open>
  Counterexample to C9 as stated: the raw item \<^verbatim>\<open>{ id: 'a', status: 'bogus' }\<close> gives a
  Todo whose status is \<^verbatim>\<open>bogus\<close>, outside the four statuses.
\<close>

theorem unknown_todo_status_passes_through:
  "chunk_events example_env
     (JObj [(''todos'', JArr [JObj [(''id'', JStr ''a''), (''status'', JStr ''bogus'')]])])
     new_session
     = [TodosEv [\<lparr>t_id = JStr ''a'', t_content = JStr [], t_status = JStr ''bogus''\<rparr>]] \<and>
   JStr ''bogus'' \<notin> set todo_statuses"
  by code_simp

subsection \<open>Messages without an identifier\<close>












end
